theory Spec2Isabelle
  imports Main "HOL-Library.Multiset"
begin

section \<open>Strings as the script sees them\<close>

text \<open>
  A JavaScript string is modelled as the list of its code units, a \<^typ>\<open>string\<close>; code
  units are restricted to those below 256. Files are read through \<^verbatim>\<open>readline\<close>, so a text
  file is modelled by the list of lines that \<^verbatim>\<open>readline\<close> hands to the \<^verbatim>\<open>line\<close> handler,
  and a file that does not exist by \<open>None\<close>.
\<close>

definition LF :: char where
  "LF = CHR 0x0A"

text \<open>The white space that \<^verbatim>\<open>String.prototype.trim\<close> removes, among code units below 256:
  tab, line feed, vertical tab, form feed, carriage return, space and no-break space.\<close>

definition isWhiteSpace :: "char \<Rightarrow> bool" where
  "isWhiteSpace c \<longleftrightarrow>
     c = CHR 0x09 \<or> c = CHR 0x0A \<or> c = CHR 0x0B \<or> c = CHR 0x0C \<or> c = CHR 0x0D \<or>
     c = CHR 0x20 \<or> c = CHR 0xA0"

definition trim :: "string \<Rightarrow> string" where
  "trim s = rev (dropWhile isWhiteSpace (rev (dropWhile isWhiteSpace s)))"

text \<open>\<^verbatim>\<open>line.split(",")\<close>: the fields between commas; the empty string has the one field
  \<open>''''\<close>, and a string with \<open>n\<close> commas has \<open>n + 1\<close> fields.\<close>

fun split_comma :: "string \<Rightarrow> string list" where
  "split_comma [] = [[]]"
| "split_comma (c # cs) =
     (if c = CHR '','' then [] # split_comma cs
      else (case split_comma cs of
              [] \<Rightarrow> [[c]]
            | p # ps \<Rightarrow> (c # p) # ps))"

section \<open>Reading the checkpoint logs and the report\<close>

datatype error = FileNotFound

text \<open>\<^verbatim>\<open>readExistingChecksums\<close> (lines 173-192): a missing file resolves to the empty set;
  otherwise the \<^verbatim>\<open>line\<close> handler adds \<^verbatim>\<open>line.trim()\<close> to the set, for every line.\<close>

definition readExistingChecksums :: "string list option \<Rightarrow> string set" where
  "readExistingChecksums file =
     (case file of
        None \<Rightarrow> {}
      | Some lines \<Rightarrow> fold (\<lambda>line checksums. insert (trim line) checksums) lines {})"

text \<open>The \<^verbatim>\<open>line\<close> handler of \<^verbatim>\<open>parseChecksumFile\<close> (lines 211-220), as a function from the
  array \<^verbatim>\<open>checksums\<close> before the line to the array after it.\<close>

definition onLine :: "string set \<Rightarrow> string \<Rightarrow> string list \<Rightarrow> string list" where
  "onLine existingChecksums line checksums =
     (let parts = split_comma line in
      if length parts = 2 \<and> parts ! 1 \<noteq> [] then
        (let checksum = trim (parts ! 1) in
         if checksum \<notin> existingChecksums then checksums @ [checksum] else checksums)
      else checksums)"

text \<open>\<^verbatim>\<open>parseChecksumFile\<close> (lines 199-225): rejects when the file does not exist, otherwise
  resolves to the array built by the handler over all lines.\<close>

definition parseChecksumFile :: "string list option \<Rightarrow> string set \<Rightarrow> error + string list" where
  "parseChecksumFile file existingChecksums =
     (case file of
        None \<Rightarrow> Inl FileNotFound
      | Some lines \<Rightarrow> Inr (fold (onLine existingChecksums) lines []))"

section \<open>The oracle\<close>

text \<open>
  The body of a successful answer is taken in the shape of the wire contract: a JSON object
  whose \<^verbatim>\<open>key\<close> field, when present, is a string. \<open>key = None\<close> is a body without the field.
\<close>

datatype response = Response (key: "string option")

text \<open>What one \<^verbatim>\<open>fetch\<close> can come to: the call (or the decoding of the body) throws, or an
  HTTP answer arrives with a status and a body; \<open>body = None\<close> is a body that
  \<^verbatim>\<open>response.json()\<close> cannot decode.\<close>

datatype reply = NetworkFailure | HttpReply (status: nat) (body: "response option")

text \<open>The remote service is a black box with a state of its own: given its state and the
  fingerprint posted, it answers and moves to a new state.\<close>

type_synonym 'o service = "'o \<Rightarrow> string \<Rightarrow> reply \<times> 'o"

section \<open>The world the script runs in\<close>

text \<open>Console output, one event per message; timing and decoration lines are left out.
  \<open>Progress\<close> is the line written by \<^verbatim>\<open>updateProgress\<close>.\<close>

datatype event =
    Announce
  | NoNewChecksums
  | Found nat
  | Progress nat nat
  | MatchReport string string
  | SearchComplete
  | NonOkStatus nat string
  | NetworkError string
  | MainError error

text \<open>
  The directory of the report holds the report and the three files the script derives from
  its path: \<^verbatim>\<open>failed.txt\<close>, \<^verbatim>\<open>processed.txt\<close> and \<^verbatim>\<open>ans.txt\<close>; the report is taken to be
  a fourth file, and the directory to exist. \<open>requests\<close> is the sequence of fingerprints
  posted to the service. \<open>processedCount\<close> and \<open>matchFound\<close> are the two locals of \<^verbatim>\<open>main\<close>.
  In a process that runs to its end, a write to an append stream is taken to reach the file
  when it is issued; what a killed process leaves on disk is described further down.
\<close>

record 'o world =
  reportTxt :: "string list option"
  failedTxt :: "string list option"
  processedTxt :: "string list option"
  ansTxt :: "string option"
  server :: 'o
  requests :: "string list"
  console :: "event list"
  processedCount :: nat
  matchFound :: bool

definition say :: "event \<Rightarrow> 'o world \<Rightarrow> 'o world" where
  "say e w = w\<lparr>console := console w @ [e]\<rparr>"

text \<open>\<^verbatim>\<open>fs.createWriteStream(path, {flags: "a"})\<close>: the file is opened for appending, and
  created empty when it does not exist.\<close>

definition openAppend :: "string list option \<Rightarrow> string list option" where
  "openAppend file = (case file of None \<Rightarrow> Some [] | Some lines \<Rightarrow> Some lines)"

text \<open>\<^verbatim>\<open>stream.write(`${checksum}\n`)\<close> on such a stream: one more line at the end.\<close>

definition writeLine :: "string \<Rightarrow> string list option \<Rightarrow> string list option" where
  "writeLine checksum file =
     (case file of None \<Rightarrow> Some [checksum] | Some lines \<Rightarrow> Some (lines @ [checksum]))"

text \<open>\<^verbatim>\<open>updateProgress\<close> (lines 128-133).\<close>

definition updateProgress :: "nat \<Rightarrow> nat \<Rightarrow> 'o world \<Rightarrow> 'o world" where
  "updateProgress processed totalCount w = say (Progress processed totalCount) w"

text \<open>\<^verbatim>\<open>submitChecksum\<close> (lines 140-166): one request; a thrown error, a status outside
  200-299 and an undecodable body are logged and give \<^verbatim>\<open>null\<close>, here \<open>None\<close>.\<close>

definition submitChecksum :: "'o service \<Rightarrow> string \<Rightarrow> 'o world \<Rightarrow> response option \<times> 'o world" where
  "submitChecksum srv checksum w =
     (let (rep, o') = srv (server w) checksum;
          w1 = w\<lparr>server := o', requests := requests w @ [checksum]\<rparr>
      in case rep of
           NetworkFailure \<Rightarrow> (None, say (NetworkError checksum) w1)
         | HttpReply st b \<Rightarrow>
             if \<not> (200 \<le> st \<and> st \<le> 299) then (None, say (NonOkStatus st checksum) w1)
             else (case b of
                     None \<Rightarrow> (None, say (NetworkError checksum) w1)
                   | Some r \<Rightarrow> (Some r, w1)))"

section \<open>The verification loop\<close>

text \<open>Truthiness of \<^verbatim>\<open>response.key\<close>: a missing field (\<^verbatim>\<open>undefined\<close>) and the empty string
  are falsy, every other string is truthy.\<close>

fun truthy :: "string option \<Rightarrow> bool" where
  "truthy None = False"
| "truthy (Some k) = (k \<noteq> [])"

text \<open>A value inside a template literal.\<close>

fun render :: "string option \<Rightarrow> string" where
  "render None = ''undefined''"
| "render (Some k) = k"

text \<open>The text written to \<^verbatim>\<open>ans.txt\<close> (lines 96-99).\<close>

definition answer :: "string \<Rightarrow> string option \<Rightarrow> string" where
  "answer checksum k = ''checksum: '' @ checksum @ [LF] @ ''key: '' @ render k @ [LF]"

text \<open>How one pass through the body of the \<^verbatim>\<open>for\<close> loop leaves it: by one of the two
  \<^verbatim>\<open>continue\<close> statements after a request without answer (\<open>Failed\<close>), by the \<^verbatim>\<open>break\<close>
  of the match branch (\<open>Match\<close>), or through the end of the \<^verbatim>\<open>else\<close> branch (\<open>Mismatch\<close>).\<close>

datatype verdict = Failed | Mismatch | Match

text \<open>The body of the loop for one candidate (lines 73-115).\<close>

definition body :: "'o service \<Rightarrow> nat \<Rightarrow> string \<Rightarrow> 'o world \<Rightarrow> verdict \<times> 'o world" where
  "body srv totalChecksums checksum w =
     (case submitChecksum srv checksum w of
        (None, w1) \<Rightarrow>
          (Failed,
           updateProgress (processedCount w1 + 1) totalChecksums
             (w1\<lparr>failedTxt := writeLine checksum (failedTxt w1),
                 processedCount := processedCount w1 + 1\<rparr>))
      | (Some response1, w1) \<Rightarrow>
          (case submitChecksum srv checksum w1 of
             (None, w2) \<Rightarrow>
               (Failed,
                updateProgress (processedCount w2 + 1) totalChecksums
                  (w2\<lparr>failedTxt := writeLine checksum (failedTxt w2),
                      processedCount := processedCount w2 + 1\<rparr>))
           | (Some response2, w2) \<Rightarrow>
               if truthy (key response1) \<and> truthy (key response2)
                  \<and> key response1 = key response2
               then
                 (Match,
                  say (MatchReport checksum (render (key response1)))
                    (w2\<lparr>matchFound := True,
                        ansTxt := Some (answer checksum (key response1))\<rparr>))
               else
                 (Mismatch,
                  updateProgress (processedCount w2 + 1) totalChecksums
                    (w2\<lparr>processedTxt := writeLine checksum (processedTxt w2),
                        processedCount := processedCount w2 + 1\<rparr>))))"

text \<open>The \<^verbatim>\<open>for\<close> loop of \<^verbatim>\<open>main\<close> (lines 70-116), over the candidates still to visit.\<close>

fun loop :: "'o service \<Rightarrow> nat \<Rightarrow> string list \<Rightarrow> 'o world \<Rightarrow> 'o world" where
  "loop srv totalChecksums [] w = w"
| "loop srv totalChecksums (checksum # rest) w =
     (if matchFound w then w
      else
        (case body srv totalChecksums checksum w of
           (Match, w') \<Rightarrow> w'
         | (_, w') \<Rightarrow> loop srv totalChecksums rest w'))"

section \<open>The script\<close>

text \<open>How the promise of \<^verbatim>\<open>main()\<close> ends: \<^verbatim>\<open>process.exit(n)\<close> was called, the function
  returned, or the promise was rejected.\<close>

datatype ending = Exited nat | Returned | Rejected error

text \<open>\<^verbatim>\<open>main\<close> (lines 19-126). The path typed at the prompt selects the directory, that is
  the four files of the world.\<close>

definition main :: "'o service \<Rightarrow> 'o world \<Rightarrow> ending \<times> 'o world" where
  "main srv w0 =
     (let w1 = w0\<lparr>failedTxt := openAppend (failedTxt w0),
                  processedTxt := openAppend (processedTxt w0)\<rparr>;
          w2 = say Announce w1;
          processedChecksums = readExistingChecksums (processedTxt w2);
          failedChecksums = readExistingChecksums (failedTxt w2);
          existingChecksums = processedChecksums \<union> failedChecksums
      in case parseChecksumFile (reportTxt w2) existingChecksums of
           Inl err \<Rightarrow> (Rejected err, w2)
         | Inr checksums \<Rightarrow>
             (let totalChecksums = length checksums in
              if totalChecksums = 0 then (Returned, say NoNewChecksums w2)
              else
                (let w3 = say (Found totalChecksums) w2;
                     w4 = w3\<lparr>processedCount := 0, matchFound := False\<rparr>;
                     w5 = loop srv totalChecksums checksums w4;
                     w6 = (if \<not> matchFound w5 then say SearchComplete w5 else w5)
                 in (Exited 0, w6))))"

text \<open>The last statement of the file (lines 243-245): \<^verbatim>\<open>main().catch(...)\<close> logs a rejection
  and does nothing else. The result is the exit status of the process and the world it
  leaves: where \<^verbatim>\<open>process.exit\<close> was not called and \<^verbatim>\<open>process.exitCode\<close> never set, Node
  ends with status 0 once nothing is pending.\<close>

definition script :: "'o service \<Rightarrow> 'o world \<Rightarrow> nat \<times> 'o world" where
  "script srv w0 =
     (case main srv w0 of
        (Exited n, w) \<Rightarrow> (n, w)
      | (Returned, w) \<Rightarrow> (0, w)
      | (Rejected err, w) \<Rightarrow> (0, say (MainError err) w))"

section \<open>Vocabulary of the specification\<close>

text \<open>A report line made of exactly two comma-separated fields, \<open>label\<close> and \<open>field\<close>.\<close>

definition recordLine :: "string \<Rightarrow> string \<Rightarrow> string \<Rightarrow> bool" where
  "recordLine line label field \<longleftrightarrow>
     line = label @ CHR '','' # field \<and> CHR '','' \<notin> set label \<and> CHR '','' \<notin> set field"

text \<open>Submitted twice in a row to the service as it stands in world \<open>w\<close>, the fingerprint
  gets two responses, each carrying a non-empty key, and the two keys are equal.\<close>

definition twoEqualKeys :: "'o service \<Rightarrow> string \<Rightarrow> 'o world \<Rightarrow> bool" where
  "twoEqualKeys srv checksum w =
     (case submitChecksum srv checksum w of
        (None, w1) \<Rightarrow> False
      | (Some response1, w1) \<Rightarrow>
          (case submitChecksum srv checksum w1 of
             (None, w2) \<Rightarrow> False
           | (Some response2, w2) \<Rightarrow>
               (case (key response1, key response2) of
                  (Some k1, Some k2) \<Rightarrow> k1 \<noteq> [] \<and> k2 \<noteq> [] \<and> k1 = k2
                | _ \<Rightarrow> False)))"

text \<open>The lines of a file, none for a file that does not exist.\<close>

definition linesOf :: "string list option \<Rightarrow> string list" where
  "linesOf f = (case f of None \<Rightarrow> [] | Some lines \<Rightarrow> lines)"



text \<open>The progress reports among the console events.\<close>

fun isProgress :: "event \<Rightarrow> bool" where
  "isProgress (Progress p t) = True"
| "isProgress _ = False"




section \<open>Concrete inputs\<close>

text \<open>A world in which nothing has run yet: no checkpoint log, no result artifact.\<close>

definition fresh :: "'o \<Rightarrow> string list option \<Rightarrow> 'o world" where
  "fresh s report =
     \<lparr>reportTxt = report, failedTxt = None, processedTxt = None, ansTxt = None,
      server = s, requests = [], console = [], processedCount = 0, matchFound = False\<rparr>"

text \<open>A service that counts the requests it has seen. It answers \<open>a2\<close> with the key \<open>K\<close>
  every time, \<open>a1\<close> with a key that changes from one request to the next, and nothing
  else at all.\<close>

definition scenarioA :: "nat service" where
  "scenarioA n c =
     (if c = ''a2'' then HttpReply 200 (Some (Response (Some ''K'')))
      else if c = ''a1'' then
        HttpReply 200 (Some (Response (Some (if even n then ''X'' else ''Y''))))
      else NetworkFailure,
      n + 1)"

text \<open>A directory that holds nothing, not even a report.\<close>

definition idle :: "nat world" where
  "idle = fresh 0 None"

text \<open>A directory after an earlier run that recorded \<open>a1\<close> as processed; the report
  lists \<open>a1\<close> and \<open>a3\<close>.\<close>

definition resumedRun :: "nat world" where
  "resumedRun = (fresh 0 (Some [''f1,a1'', ''f2,a3'']))\<lparr>processedTxt := Some [''a1'']\<rparr>"

text \<open>A directory whose report lists only \<open>a1\<close>, already recorded as processed.\<close>

definition nothingNew :: "nat world" where
  "nothingNew = (fresh 0 (Some [''f1,a1'']))\<lparr>processedTxt := Some [''a1'']\<rparr>"



text \<open>A directory whose report lists \<open>x\<close>, then \<open>a2\<close>, then \<open>x\<close> again.\<close>

definition matchBetween :: "nat world" where
  "matchBetween = fresh 0 (Some [''l1,x'', ''l2,a2'', ''l3,x''])"

section \<open>Lines, fields and sets\<close>

lemmas run_defs = Let_def script_def main_def parseChecksumFile_def readExistingChecksums_def
  openAppend_def say_def onLine_def trim_def isWhiteSpace_def submitChecksum_def
  updateProgress_def writeLine_def answer_def LF_def body_def linesOf_def
  fresh_def scenarioA_def idle_def

lemma fold_insert_image:
  "fold (\<lambda>line checksums. insert (f line) checksums) lines A = f ` set lines \<union> A"
  by (induction lines arbitrary: A) auto

lemma readExistingChecksums_Some:
  "readExistingChecksums (Some lines) = trim ` set lines"
  by (simp add: readExistingChecksums_def fold_insert_image)

lemma readExistingChecksums_None: "readExistingChecksums None = {}"
  by (simp add: readExistingChecksums_def)

lemma readExistingChecksums_openAppend:
  "readExistingChecksums (openAppend file) = readExistingChecksums file"
  by (simp add: openAppend_def readExistingChecksums_def split: option.splits)

lemma split_comma_not_Nil: "split_comma s \<noteq> []"
  by (induction s) (auto split: list.splits)

lemma split_comma_no_comma: "CHR '','' \<notin> set s \<Longrightarrow> split_comma s = [s]"
  by (induction s) auto

lemma split_comma_append:
  "CHR '','' \<notin> set a \<Longrightarrow> split_comma (a @ CHR '','' # b) = a # split_comma b"
  by (induction a) auto

lemma split_comma_concat:
  "\<exists>a rest. split_comma s = a # rest \<and> CHR '','' \<notin> set a \<and>
     (rest = [] \<longrightarrow> s = a) \<and> (rest \<noteq> [] \<longrightarrow> s = a @ CHR '','' # drop (Suc (length a)) s \<and> split_comma (drop (Suc (length a)) s) = rest)"
proof (induction s)
  case Nil
  then show ?case by simp
next
  case (Cons c s)
  then show ?case
    by (cases "c = CHR '',''") (auto simp: split_comma_not_Nil split: list.splits)
qed

lemma split_comma_single:
  "split_comma s = [b] \<longleftrightarrow> s = b \<and> CHR '','' \<notin> set b"
  using split_comma_concat [of s] by (auto simp: split_comma_no_comma)

lemma split_comma_two:
  "split_comma s = [a, b] \<longleftrightarrow> s = a @ CHR '','' # b \<and> CHR '','' \<notin> set a \<and> CHR '','' \<notin> set b"
proof
  assume h: "split_comma s = [a, b]"
  from split_comma_concat [of s] h
  have 1: "CHR '','' \<notin> set a" and 2: "s = a @ CHR '','' # drop (Suc (length a)) s"
    and 3: "split_comma (drop (Suc (length a)) s) = [b]"
    by auto
  from 3 have "drop (Suc (length a)) s = b \<and> CHR '','' \<notin> set b"
    by (simp add: split_comma_single)
  with 1 2 show "s = a @ CHR '','' # b \<and> CHR '','' \<notin> set a \<and> CHR '','' \<notin> set b"
    by simp
next
  assume "s = a @ CHR '','' # b \<and> CHR '','' \<notin> set a \<and> CHR '','' \<notin> set b"
  then show "split_comma s = [a, b]"
    by (simp add: split_comma_append split_comma_no_comma)
qed

lemma length_split_comma_two:
  "length (split_comma s) = 2 \<longleftrightarrow>
     (\<exists>a b. s = a @ CHR '','' # b \<and> CHR '','' \<notin> set a \<and> CHR '','' \<notin> set b)"
proof -
  have "length (split_comma s) = 2 \<longleftrightarrow> (\<exists>a b. split_comma s = [a, b])"
    by (auto simp: length_Suc_conv numeral_2_eq_2)
  then show ?thesis by (simp add: split_comma_two)
qed

lemma fold_onLine:
  "fold (onLine ex) lines acc = acc @ concat (map (\<lambda>line. onLine ex line []) lines)"
  by (induction lines arbitrary: acc) (simp_all add: onLine_def Let_def)

lemma trim_Nil_field: "trim field \<noteq> [] \<Longrightarrow> field \<noteq> []"
  by (auto simp: trim_def)

section \<open>One candidate, and the loop\<close>

lemma submitChecksum_fields:
  assumes "submitChecksum srv c w = (r, w1)"
  shows "failedTxt w1 = failedTxt w" "processedTxt w1 = processedTxt w"
    "ansTxt w1 = ansTxt w" "reportTxt w1 = reportTxt w"
    "processedCount w1 = processedCount w" "matchFound w1 = matchFound w"
    "requests w1 = requests w @ [c]"
    "filter isProgress (console w1) = filter isProgress (console w)"
  using assms
  by (auto simp: submitChecksum_def say_def Let_def
      split: prod.splits reply.splits option.splits if_splits)

lemma truthy_iff: "truthy k \<longleftrightarrow> (\<exists>s. k = Some s \<and> s \<noteq> [])"
  by (cases k) auto

lemma body_Failed:
  assumes "body srv t c w = (Failed, w')"
  shows "failedTxt w' = writeLine c (failedTxt w)" (is ?A)
    and "processedTxt w' = processedTxt w" (is ?B)
    and "ansTxt w' = ansTxt w" (is ?C)
    and "matchFound w' = matchFound w" (is ?D)
    and "processedCount w' = processedCount w + 1" (is ?E)
    and "filter isProgress (console w') = filter isProgress (console w) @ [Progress (processedCount w + 1) t]" (is ?F)
    and "requests w' = requests w @ [c] \<or> requests w' = requests w @ [c, c]" (is ?G)
    and "\<not> twoEqualKeys srv c w" (is ?H)
proof -
  obtain r1 w1 where s1: "submitChecksum srv c w = (r1, w1)" by force
  obtain r2 w2 where s2: "submitChecksum srv c w1 = (r2, w2)" by force
  note f1 = submitChecksum_fields [OF s1] and f2 = submitChecksum_fields [OF s2]
  show ?A ?B ?C ?D ?E ?F ?G ?H
    using assms s1 s2 f1 f2
    by (auto simp: body_def twoEqualKeys_def updateProgress_def say_def truthy_iff
        split: option.splits if_splits)
qed

lemma body_Mismatch:
  assumes "body srv t c w = (Mismatch, w')"
  shows "processedTxt w' = writeLine c (processedTxt w)" (is ?A)
    and "failedTxt w' = failedTxt w" (is ?B)
    and "ansTxt w' = ansTxt w" (is ?C)
    and "matchFound w' = matchFound w" (is ?D)
    and "processedCount w' = processedCount w + 1" (is ?E)
    and "filter isProgress (console w') = filter isProgress (console w) @ [Progress (processedCount w + 1) t]" (is ?F)
    and "requests w' = requests w @ [c, c]" (is ?G)
    and "\<not> twoEqualKeys srv c w" (is ?H)
proof -
  obtain r1 w1 where s1: "submitChecksum srv c w = (r1, w1)" by force
  obtain r2 w2 where s2: "submitChecksum srv c w1 = (r2, w2)" by force
  note f1 = submitChecksum_fields [OF s1] and f2 = submitChecksum_fields [OF s2]
  show ?A ?B ?C ?D ?E ?F ?G ?H
    using assms s1 s2 f1 f2
    by (auto simp: body_def twoEqualKeys_def updateProgress_def say_def truthy_iff
        split: option.splits if_splits)
qed

lemma body_Match:
  assumes "body srv t c w = (Match, w')"
  shows "matchFound w'" (is ?A)
    and "\<exists>k. k \<noteq> [] \<and> ansTxt w' = Some (answer c (Some k))" (is ?B)
    and "failedTxt w' = failedTxt w" (is ?C)
    and "processedTxt w' = processedTxt w" (is ?D)
    and "processedCount w' = processedCount w" (is ?E)
    and "filter isProgress (console w') = filter isProgress (console w)" (is ?F)
    and "requests w' = requests w @ [c, c]" (is ?G)
    and "twoEqualKeys srv c w" (is ?H)
proof -
  obtain r1 w1 where s1: "submitChecksum srv c w = (r1, w1)" by force
  obtain r2 w2 where s2: "submitChecksum srv c w1 = (r2, w2)" by force
  note f1 = submitChecksum_fields [OF s1] and f2 = submitChecksum_fields [OF s2]
  show ?A ?B ?C ?D ?E ?F ?G ?H
    using assms s1 s2 f1 f2
    by (auto simp: body_def twoEqualKeys_def updateProgress_def say_def truthy_iff
        split: option.splits if_splits)
qed



lemma loop_matchFound: "matchFound w \<Longrightarrow> loop srv t cs w = w"
  by (cases cs) simp_all

lemma loop_append: "loop srv t (xs @ ys) w = loop srv t ys (loop srv t xs w)"
proof (induction xs arbitrary: w)
  case Nil
  then show ?case by simp
next
  case (Cons c xs)
  show ?case
  proof (cases "matchFound w")
    case True
    then show ?thesis by (simp add: loop_matchFound)
  next
    case False
    obtain v w' where b: "body srv t c w = (v, w')" by force
    show ?thesis
    proof (cases v)
      case Match
      with b False show ?thesis
        using body_Match(1) [of srv t c w w'] by (simp add: loop_matchFound)
    qed (use b False Cons.IH in simp_all)
  qed
qed


lemma loop_requests:
  "\<exists>R. requests (loop srv t cs w) = requests w @ R \<and> set R \<subseteq> set cs"
proof (induction cs arbitrary: w)
  case Nil
  then show ?case by simp
next
  case (Cons c cs)
  show ?case
  proof (cases "matchFound w")
    case True
    then show ?thesis by simp
  next
    case False
    obtain v w' where b: "body srv t c w = (v, w')" by force
    have r: "\<exists>R. requests w' = requests w @ R \<and> set R \<subseteq> {c}"
      using b body_Failed(7) [of srv t c w w'] body_Mismatch(7) [of srv t c w w']
        body_Match(7) [of srv t c w w']
      by (cases v) auto
    then obtain R where R: "requests w' = requests w @ R" "set R \<subseteq> {c}" by blast
    show ?thesis
    proof (cases "v = Match")
      case True
      with b False R show ?thesis by auto
    next
      case False
      with b \<open>\<not> matchFound w\<close> have step: "loop srv t (c # cs) w = loop srv t cs w'"
        by (cases v) simp_all
      from Cons.IH [of w'] obtain R' where
        "requests (loop srv t cs w') = requests w' @ R'" "set R' \<subseteq> set cs" by blast
      with R step have "requests (loop srv t (c # cs) w) = requests w @ (R @ R')
          \<and> set (R @ R') \<subseteq> set (c # cs)"
        by auto
      then show ?thesis by blast
    qed
  qed
qed

section \<open>Claims about reading the files\<close>

text \<open>
  Claim C7 says that blank lines of a checkpoint log are ignored, so that the loaded set
  holds only non-empty fingerprints. The handler adds the trimmed text of every line: a log
  with a blank line loads the empty string as a member.
\<close>

theorem readExistingChecksums_keeps_blank_line:
  "'''' \<in> readExistingChecksums (Some [''abc'', '''', ''def''])"
  by (simp add: readExistingChecksums_def trim_def)

text \<open>
  Claim C7, amended: a checkpoint log that does not exist loads as the empty set, and one
  that exists loads as the set of its trimmed lines, the empty string among them when a
  line is blank.
\<close>

theorem readExistingChecksums_trimmed_lines:
  "readExistingChecksums None = {} \<and> readExistingChecksums (Some lines) = trim ` set lines"
  by (simp add: readExistingChecksums_Some readExistingChecksums_None)

text \<open>
  Claim C4 says that a line whose label field is empty is skipped. The handler looks at
  the second field only: the line \<open>,abc\<close> has two fields, the first empty, and contributes
  the candidate \<open>abc\<close>.
\<close>

theorem parseChecksumFile_empty_label_counted:
  "recordLine '',abc'' '''' ''abc'' \<and> parseChecksumFile (Some ['',abc'']) {} = Inr [''abc'']"
  by (simp add: run_defs recordLine_def)

text \<open>
  Claim C4, amended: reading the report never aborts, and every line contributes on its
  own, in order. A line made of exactly two comma-separated fields whose second field holds
  more than white space contributes that field, trimmed, unless it is already in the
  checkpoint set; the label may be empty. A line that is not made of exactly two fields with
  a non-empty second field contributes nothing.
\<close>

theorem parseChecksumFile_line_rule:
  "parseChecksumFile (Some lines) ex = Inr (concat (map (\<lambda>line. onLine ex line []) lines))
   \<and> (\<forall>label field. recordLine line label field \<and> trim field \<noteq> [] \<longrightarrow>
         onLine ex line [] = (if trim field \<in> ex then [] else [trim field]))
   \<and> ((\<nexists>label field. recordLine line label field \<and> field \<noteq> []) \<longrightarrow> onLine ex line [] = [])"
proof (intro conjI allI impI)
  show "parseChecksumFile (Some lines) ex = Inr (concat (map (\<lambda>line. onLine ex line []) lines))"
    using fold_onLine [of ex lines "[]"] by (simp add: parseChecksumFile_def)
next
  fix label field
  assume h: "recordLine line label field \<and> trim field \<noteq> []"
  then have "split_comma line = [label, field]"
    by (simp add: recordLine_def split_comma_two)
  moreover from h have "field \<noteq> []" by (simp add: trim_Nil_field)
  ultimately show "onLine ex line [] = (if trim field \<in> ex then [] else [trim field])"
    by (simp add: onLine_def)
next
  assume h: "\<nexists>label field. recordLine line label field \<and> field \<noteq> []"
  show "onLine ex line [] = []"
  proof (cases "length (split_comma line) = 2 \<and> split_comma line ! 1 \<noteq> []")
    case True
    then obtain a b where ab: "split_comma line = [a, b]"
      by (auto simp: length_Suc_conv numeral_2_eq_2)
    with True have "recordLine line a b \<and> b \<noteq> []"
      by (simp add: recordLine_def split_comma_two)
    with h show ?thesis by blast
  next
    case False
    then show ?thesis by (auto simp: onLine_def Let_def)
  qed
qed

text \<open>The rule at work on a report of three lines: an empty label, three fields, and
  a fingerprint with white space around it.\<close>

theorem parseChecksumFile_line_rule_witness:
  "recordLine '',abc'' '''' ''abc'' \<and> trim ''abc'' \<noteq> [] \<and> onLine {} '',abc'' [] = [''abc'']
   \<and> (\<nexists>label field. recordLine ''a,b,c'' label field \<and> field \<noteq> []) \<and> onLine {} ''a,b,c'' [] = []
   \<and> parseChecksumFile (Some ['',abc'', ''a,b,c'', ''f, h1 '']) {} = Inr [''abc'', ''h1'']"
proof -
  have h1: "recordLine '',abc'' '''' ''abc'' \<and> trim ''abc'' \<noteq> []"
    by (simp add: recordLine_def trim_def isWhiteSpace_def)
  have "length (split_comma ''a,b,c'') \<noteq> 2" by simp
  then have h2: "\<nexists>label field. recordLine ''a,b,c'' label field \<and> field \<noteq> []"
    unfolding recordLine_def using length_split_comma_two [of "''a,b,c''"] by blast
  note t = parseChecksumFile_line_rule [of "['',abc'', ''a,b,c'', ''f, h1 '']" "{}" "'',abc''"]
  from t have p: "parseChecksumFile (Some ['',abc'', ''a,b,c'', ''f, h1 '']) {}
       = Inr (concat (map (\<lambda>line. onLine {} line []) ['',abc'', ''a,b,c'', ''f, h1 '']))"
    by blast
  from t h1 have "onLine {} '',abc'' [] = (if trim ''abc'' \<in> {} then [] else [trim ''abc''])"
    by blast
  then have a: "onLine {} '',abc'' [] = [''abc'']"
    by (simp add: trim_def isWhiteSpace_def)
  from parseChecksumFile_line_rule [of "[]" "{}" "''a,b,c''"] h2
  have b: "onLine {} ''a,b,c'' [] = []" by blast
  from p have "parseChecksumFile (Some ['',abc'', ''a,b,c'', ''f, h1 '']) {} = Inr [''abc'', ''h1'']"
    by (simp add: onLine_def trim_def isWhiteSpace_def)
  with h1 h2 a b show ?thesis by blast
qed

section \<open>The script as a whole\<close>

lemma main_missing:
  assumes "parseChecksumFile (reportTxt w)
             (readExistingChecksums (processedTxt w) \<union> readExistingChecksums (failedTxt w)) = Inl e"
  shows "main srv w =
           (Rejected e,
            w\<lparr>failedTxt := openAppend (failedTxt w), processedTxt := openAppend (processedTxt w),
              console := console w @ [Announce]\<rparr>)"
  using assms by (simp add: main_def say_def readExistingChecksums_openAppend Let_def)

lemma main_nothing:
  assumes "parseChecksumFile (reportTxt w)
             (readExistingChecksums (processedTxt w) \<union> readExistingChecksums (failedTxt w)) = Inr []"
  shows "main srv w =
           (Returned,
            w\<lparr>failedTxt := openAppend (failedTxt w), processedTxt := openAppend (processedTxt w),
              console := console w @ [Announce, NoNewChecksums]\<rparr>)"
  using assms by (simp add: main_def say_def readExistingChecksums_openAppend Let_def)

lemma main_search:
  assumes "parseChecksumFile (reportTxt w)
             (readExistingChecksums (processedTxt w) \<union> readExistingChecksums (failedTxt w)) = Inr cs"
    and "cs \<noteq> []"
  shows "\<exists>w5. w5 = loop srv (length cs) cs
                 (w\<lparr>failedTxt := openAppend (failedTxt w), processedTxt := openAppend (processedTxt w),
                    console := console w @ [Announce, Found (length cs)],
                    processedCount := 0, matchFound := False\<rparr>)
           \<and> main srv w = (Exited 0, if matchFound w5 then w5 else say SearchComplete w5)"
  using assms by (simp add: main_def say_def readExistingChecksums_openAppend Let_def)

lemma onLine_not_existing: "set (onLine ex line acc) \<subseteq> set acc \<union> (- ex)"
  by (auto simp: onLine_def Let_def)

lemma fold_onLine_not_existing: "set (fold (onLine ex) lines acc) \<subseteq> set acc \<union> (- ex)"
proof (induction lines arbitrary: acc)
  case Nil
  then show ?case by simp
next
  case (Cons l lines)
  from Cons.IH [of "onLine ex l acc"] onLine_not_existing [of ex l acc]
  show ?case by auto
qed

lemma parseChecksumFile_not_existing:
  "parseChecksumFile file ex = Inr cs \<Longrightarrow> c \<in> set cs \<Longrightarrow> c \<notin> ex"
  using fold_onLine_not_existing [of ex _ "[]"]
  by (auto simp: parseChecksumFile_def split: option.splits)

section \<open>Claims about whole runs of the script\<close>

text \<open>
  Claim C2: a fingerprint that is in the \<open>processed\<close> or the \<open>failed\<close> set loaded at startup,
  whichever of the two, is not among the candidates read from the report, and no request
  of the run carries it.
\<close>

theorem checkpointed_never_submitted:
  assumes "F \<in> readExistingChecksums (processedTxt w) \<union> readExistingChecksums (failedTxt w)"
  shows "(\<forall>cs. parseChecksumFile (reportTxt w)
                 (readExistingChecksums (processedTxt w) \<union> readExistingChecksums (failedTxt w)) = Inr cs
               \<longrightarrow> F \<notin> set cs)
         \<and> (\<exists>R. requests (snd (script srv w)) = requests w @ R \<and> F \<notin> set R)"
proof
  show "\<forall>cs. parseChecksumFile (reportTxt w)
                 (readExistingChecksums (processedTxt w) \<union> readExistingChecksums (failedTxt w)) = Inr cs
               \<longrightarrow> F \<notin> set cs"
    using assms parseChecksumFile_not_existing by blast
next
  let ?ex = "readExistingChecksums (processedTxt w) \<union> readExistingChecksums (failedTxt w)"
  show "\<exists>R. requests (snd (script srv w)) = requests w @ R \<and> F \<notin> set R"
  proof (cases "parseChecksumFile (reportTxt w) ?ex")
    case (Inl e)
    then show ?thesis by (simp add: script_def main_missing say_def)
  next
    case (Inr cs)
    show ?thesis
    proof (cases "cs = []")
      case True
      with Inr show ?thesis by (simp add: script_def main_nothing)
    next
      case False
      let ?w4 = "w\<lparr>failedTxt := openAppend (failedTxt w), processedTxt := openAppend (processedTxt w),
                    console := console w @ [Announce, Found (length cs)],
                    processedCount := 0, matchFound := False\<rparr>"
      from main_search [OF Inr False, of srv]
      have m: "main srv w = (Exited 0, if matchFound (loop srv (length cs) cs ?w4)
                 then loop srv (length cs) cs ?w4 else say SearchComplete (loop srv (length cs) cs ?w4))"
        by simp
      from loop_requests [of srv "length cs" cs ?w4] obtain R where
        R: "requests (loop srv (length cs) cs ?w4) = requests w @ R" "set R \<subseteq> set cs"
        by auto
      from assms Inr have "F \<notin> set cs" using parseChecksumFile_not_existing by blast
      with R have "F \<notin> set R" by blast
      with R m show ?thesis by (auto simp: script_def say_def)
    qed
  qed
qed

text \<open>A restart after a run that recorded \<open>a1\<close> as processed: only \<open>a3\<close> is submitted.\<close>

theorem checkpointed_never_submitted_witness:
  "''a1'' \<in> readExistingChecksums (processedTxt resumedRun)
           \<union> readExistingChecksums (failedTxt resumedRun)
   \<and> requests (snd (script scenarioA resumedRun)) = [''a3'']
   \<and> ''a1'' \<notin> set (requests (snd (script scenarioA resumedRun)))"
proof -
  let ?w = "resumedRun"
  have h: "''a1'' \<in> readExistingChecksums (processedTxt ?w) \<union> readExistingChecksums (failedTxt ?w)"
    by (simp add: run_defs resumedRun_def)
  have r: "requests ?w = []" by (simp add: run_defs resumedRun_def)
  from checkpointed_never_submitted [OF h, of scenarioA] r
  have n: "''a1'' \<notin> set (requests (snd (script scenarioA ?w)))" by auto
  have e: "requests (snd (script scenarioA ?w)) = [''a3'']"
    by (simp add: run_defs resumedRun_def)
  from h n e show ?thesis by blast
qed

text \<open>
  Claim C5 says that a missing report ends the process with a non-zero exit status. In a
  directory without a report, \<^verbatim>\<open>parseChecksumFile\<close> rejects before any request is made and
  the handler of \<^verbatim>\<open>main().catch\<close> prints the error, but the exit status is 0, as in every
  other run.
\<close>

theorem script_missing_report_exits_zero:
  "script scenarioA idle =
     (0, idle\<lparr>failedTxt := Some [], processedTxt := Some [],
                         console := [Announce, MainError FileNotFound]\<rparr>)"
  by (simp add: run_defs)

text \<open>
  Claim C6 says that a run without new candidates does not create the checkpoint files.
  Both append streams are opened before the report is read: after a run on an empty report
  in a directory without \<^verbatim>\<open>failed.txt\<close>, the file exists.
\<close>

theorem script_nothing_new_creates_logs:
  "failedTxt (fresh (0::nat) (Some [])) = None
   \<and> failedTxt (snd (script scenarioA (fresh 0 (Some [])))) = Some []"
  by (simp add: run_defs)

lemma linesOf_openAppend: "linesOf (openAppend f) = linesOf f"
  by (simp add: linesOf_def openAppend_def split: option.splits)

lemma linesOf_writeLine: "linesOf (writeLine c f) = linesOf f @ [c]"
  by (simp add: linesOf_def writeLine_def split: option.splits)

text \<open>
  Claim C6, amended: when the report yields no new candidate, the script reports that
  there is nothing to do, makes no request and ends with exit status 0; no line is added to
  a checkpoint log, the lines of an existing log are kept, and a log that did not exist is
  created empty by the append stream opened at startup.
\<close>

theorem script_nothing_new:
  assumes "parseChecksumFile (reportTxt w)
             (readExistingChecksums (processedTxt w) \<union> readExistingChecksums (failedTxt w)) = Inr []"
  shows "script srv w =
           (0, w\<lparr>failedTxt := openAppend (failedTxt w), processedTxt := openAppend (processedTxt w),
                 console := console w @ [Announce, NoNewChecksums]\<rparr>)
         \<and> linesOf (failedTxt (snd (script srv w))) = linesOf (failedTxt w)
         \<and> linesOf (processedTxt (snd (script srv w))) = linesOf (processedTxt w)"
  using assms by (simp add: script_def main_nothing linesOf_openAppend)

text \<open>A report whose only fingerprint is already in \<open>processed\<close>.\<close>

theorem script_nothing_new_witness:
  "parseChecksumFile (reportTxt nothingNew)
      (readExistingChecksums (processedTxt nothingNew)
       \<union> readExistingChecksums (failedTxt nothingNew)) = Inr []
   \<and> script scenarioA nothingNew =
       (0, nothingNew\<lparr>failedTxt := Some [],
             console := [Announce, NoNewChecksums]\<rparr>)"
proof -
  let ?w = "nothingNew"
  have h: "parseChecksumFile (reportTxt ?w)
      (readExistingChecksums (processedTxt ?w) \<union> readExistingChecksums (failedTxt ?w)) = Inr []"
    by (simp add: run_defs nothingNew_def)
  from script_nothing_new [OF h, of scenarioA]
  have "script scenarioA ?w =
       (0, ?w\<lparr>failedTxt := openAppend (failedTxt ?w), processedTxt := openAppend (processedTxt ?w),
                 console := console ?w @ [Announce, NoNewChecksums]\<rparr>)"
    by blast
  then have "script scenarioA ?w = (0, nothingNew\<lparr>failedTxt := Some [],
             console := [Announce, NoNewChecksums]\<rparr>)"
    by (simp add: run_defs nothingNew_def openAppend_def)
  with h show ?thesis by blast
qed

section \<open>Accounts of the loop\<close>

lemma body_not_Match:
  assumes "body srv t c w = (v, w')" and "v \<noteq> Match"
  shows "\<exists>F P. linesOf (failedTxt w') = linesOf (failedTxt w) @ F
           \<and> linesOf (processedTxt w') = linesOf (processedTxt w) @ P
           \<and> mset F + mset P = {#c#}"
    and "matchFound w' = matchFound w" and "ansTxt w' = ansTxt w"
    and "processedCount w' = Suc (processedCount w)"
    and "filter isProgress (console w') = filter isProgress (console w) @ [Progress (Suc (processedCount w)) t]"
    and "\<exists>R. requests w' = requests w @ c # R \<and> set R \<subseteq> {c}"
proof -
  from assms consider "body srv t c w = (Failed, w')" | "body srv t c w = (Mismatch, w')"
    by (cases v) auto
  note cases = this
  show "\<exists>F P. linesOf (failedTxt w') = linesOf (failedTxt w) @ F
           \<and> linesOf (processedTxt w') = linesOf (processedTxt w) @ P
           \<and> mset F + mset P = {#c#}"
  proof (cases rule: cases)
    case 1
    from body_Failed(1,2) [OF 1]
    have "linesOf (failedTxt w') = linesOf (failedTxt w) @ [c]
           \<and> linesOf (processedTxt w') = linesOf (processedTxt w) @ []
           \<and> mset [c] + mset [] = {#c#}"
      by (simp add: linesOf_writeLine)
    then show ?thesis by blast
  next
    case 2
    from body_Mismatch(1,2) [OF 2]
    have "linesOf (failedTxt w') = linesOf (failedTxt w) @ []
           \<and> linesOf (processedTxt w') = linesOf (processedTxt w) @ [c]
           \<and> mset [] + mset [c] = {#c#}"
      by (simp add: linesOf_writeLine)
    then show ?thesis by blast
  qed
  show "matchFound w' = matchFound w"
    using body_Failed(4) body_Mismatch(4) by (cases rule: cases) blast+
  show "ansTxt w' = ansTxt w"
    using body_Failed(3) body_Mismatch(3) by (cases rule: cases) blast+
  show "processedCount w' = Suc (processedCount w)"
    using body_Failed(5) body_Mismatch(5) by (cases rule: cases) fastforce+
  show "filter isProgress (console w') = filter isProgress (console w) @ [Progress (Suc (processedCount w)) t]"
    using body_Failed(6) body_Mismatch(6) by (cases rule: cases) fastforce+
  show "\<exists>R. requests w' = requests w @ c # R \<and> set R \<subseteq> {c}"
  proof (cases rule: cases)
    case 1
    from body_Failed(7) [OF 1] show ?thesis by auto
  next
    case 2
    from body_Mismatch(7) [OF 2] show ?thesis by auto
  qed
qed

lemma loop_step:
  assumes "\<not> matchFound w" and "body srv t c w = (v, w')" and "v \<noteq> Match"
  shows "loop srv t (c # rest) w = loop srv t rest w'"
  using assms by (cases v) simp_all

lemma loop_stop:
  assumes "\<not> matchFound w" and "body srv t c w = (Match, w')"
  shows "loop srv t (c # rest) w = w'"
  using assms by simp



lemma loop_snoc:
  assumes "\<not> matchFound (loop srv t xs w)"
  shows "loop srv t (xs @ [c]) w = snd (body srv t c (loop srv t xs w))"
proof -
  obtain v w' where b: "body srv t c (loop srv t xs w) = (v, w')" by force
  with assms show ?thesis by (cases v) (simp_all add: loop_append)
qed

lemma loop_stays:
  assumes "matchFound (loop srv t xs w)"
  shows "loop srv t (xs @ ys) w = loop srv t xs w"
  using assms by (simp add: loop_append loop_matchFound)

lemma loop_through:
  "loop srv t (pre @ c # post) w = loop srv t post (loop srv t (pre @ [c]) w)"
  using loop_append [of srv t "pre @ [c]" post w] by simp

lemma loop_earlier:
  assumes "\<not> matchFound (loop srv t (xs @ ys) w)"
  shows "\<not> matchFound (loop srv t xs w)"
  using assms loop_stays [of srv t xs w ys] by auto

lemma loop_no_match_account:
  assumes "\<not> matchFound w" and "\<not> matchFound (loop srv t cs w)"
  shows "(\<exists>F P. linesOf (failedTxt (loop srv t cs w)) = linesOf (failedTxt w) @ F
           \<and> linesOf (processedTxt (loop srv t cs w)) = linesOf (processedTxt w) @ P
           \<and> mset F + mset P = mset cs)
         \<and> ansTxt (loop srv t cs w) = ansTxt w
         \<and> processedCount (loop srv t cs w) = processedCount w + length cs"
  using assms
proof (induction cs arbitrary: w)
  case Nil
  show ?case by simp
next
  case (Cons c cs)
  obtain v w' where b: "body srv t c w = (v, w')" by force
  have v: "v \<noteq> Match"
  proof
    assume "v = Match"
    with b have bm: "body srv t c w = (Match, w')" by simp
    from loop_stop [OF Cons.prems(1) bm] body_Match(1) [OF bm] Cons.prems(2)
    show False by simp
  qed
  have step: "loop srv t (c # cs) w = loop srv t cs w'"
    by (rule loop_step [OF Cons.prems(1) b v])
  from body_not_Match(2) [OF b v] Cons.prems(1) have n': "\<not> matchFound w'" by simp
  from Cons.prems(2) step have n'': "\<not> matchFound (loop srv t cs w')" by simp
  from body_not_Match(1) [OF b v] obtain F0 P0 where
    fp0: "linesOf (failedTxt w') = linesOf (failedTxt w) @ F0"
      "linesOf (processedTxt w') = linesOf (processedTxt w) @ P0"
      "mset F0 + mset P0 = {#c#}" by blast
  from Cons.IH [OF n' n''] obtain F P where
    fp: "linesOf (failedTxt (loop srv t cs w')) = linesOf (failedTxt w') @ F"
      "linesOf (processedTxt (loop srv t cs w')) = linesOf (processedTxt w') @ P"
      "mset F + mset P = mset cs"
    and rest: "ansTxt (loop srv t cs w') = ansTxt w'"
      "processedCount (loop srv t cs w') = processedCount w' + length cs"
    by blast
  from fp0(3) fp(3) have "mset (F0 @ F) + mset (P0 @ P) = mset (c # cs)"
    by (simp add: union_ac)
  with fp fp0 step
  have "linesOf (failedTxt (loop srv t (c # cs) w)) = linesOf (failedTxt w) @ (F0 @ F)
      \<and> linesOf (processedTxt (loop srv t (c # cs) w)) = linesOf (processedTxt w) @ (P0 @ P)
      \<and> mset (F0 @ F) + mset (P0 @ P) = mset (c # cs)"
    by simp
  then have 1: "\<exists>F P. linesOf (failedTxt (loop srv t (c # cs) w)) = linesOf (failedTxt w) @ F
           \<and> linesOf (processedTxt (loop srv t (c # cs) w)) = linesOf (processedTxt w) @ P
           \<and> mset F + mset P = mset (c # cs)"
    by blast
  from rest body_not_Match(3,4) [OF b v] step
  have "ansTxt (loop srv t (c # cs) w) = ansTxt w
      \<and> processedCount (loop srv t (c # cs) w) = processedCount w + length (c # cs)"
    by simp
  with 1 show ?case by blast
qed


section \<open>Claims about the verification loop\<close>








section \<open>Repeated fingerprints\<close>

lemma count_onLine:
  assumes "F \<notin> ex"
  shows "count_list (onLine ex line acc) F
           = count_list acc F + (if onLine {} line [] = [F] then 1 else 0)"
  using assms by (auto simp: onLine_def Let_def)

lemma count_fold_onLine:
  assumes "F \<notin> ex"
  shows "count_list (fold (onLine ex) lines acc) F
           = count_list acc F + length (filter (\<lambda>line. onLine {} line [] = [F]) lines)"
proof (induction lines arbitrary: acc)
  case Nil
  show ?case by simp
next
  case (Cons l lines)
  from Cons.IH [of "onLine ex l acc"] count_onLine [OF assms, of l acc]
  show ?case by simp
qed

text \<open>
  Claim C10 says that a fingerprint listed on several report lines is submitted again on
  its later occurrences. Between two lines listing \<open>x\<close> the report lists \<open>a2\<close>, which
  matches: the outcome of the first \<open>x\<close> is written to the \<open>failed\<close> log, and the second \<open>x\<close>
  is never submitted.
\<close>

theorem later_occurrence_not_submitted:
  "parseChecksumFile (reportTxt matchBetween) {} = Inr [''x'', ''a2'', ''x'']
   \<and> failedTxt (snd (script scenarioA matchBetween)) = Some [''x'']
   \<and> requests (snd (script scenarioA matchBetween)) = [''x'', ''a2'', ''a2'']"
  by (simp add: run_defs matchBetween_def)

text \<open>
  Claim C10, amended: a fingerprint that is in neither checkpoint set occurs among the
  candidates once for every report line that carries it. An occurrence of a candidate is
  submitted exactly when no candidate before it has matched: then the outcome of every
  earlier candidate, an earlier occurrence of the same fingerprint included, is already on
  one of the two logs, and the next request of the run is nevertheless for this occurrence;
  after a match the loop has ended and no later occurrence is submitted.
\<close>

theorem repeated_fingerprint_resubmitted:
  assumes "F \<notin> ex" and "parseChecksumFile (Some lines) ex = Inr cs"
    and "\<not> matchFound w" and "cs = pre @ c # post"
  shows "count_list cs F = length (filter (\<lambda>line. onLine {} line [] = [F]) lines)
         \<and> (if matchFound (loop srv t pre w) then loop srv t cs w = loop srv t pre w
            else (\<exists>R R'. requests (loop srv t (pre @ [c]) w) = requests (loop srv t pre w) @ c # R
                     \<and> set R \<subseteq> {c}
                     \<and> requests (loop srv t cs w) = requests (loop srv t (pre @ [c]) w) @ R')
               \<and> (\<forall>d\<in>set pre. d \<in> set (linesOf (failedTxt (loop srv t pre w)))
                                   \<union> set (linesOf (processedTxt (loop srv t pre w)))))"
proof (intro conjI)
  from assms(2) have "cs = fold (onLine ex) lines []"
    by (simp add: parseChecksumFile_def)
  with count_fold_onLine [OF assms(1), of lines "[]"]
  show "count_list cs F = length (filter (\<lambda>line. onLine {} line [] = [F]) lines)"
    by simp
next
  let ?W = "loop srv t pre w" and ?W' = "loop srv t (pre @ [c]) w"
  show "if matchFound ?W then loop srv t cs w = ?W
        else (\<exists>R R'. requests ?W' = requests ?W @ c # R \<and> set R \<subseteq> {c}
                     \<and> requests (loop srv t cs w) = requests ?W' @ R')
               \<and> (\<forall>d\<in>set pre. d \<in> set (linesOf (failedTxt ?W)) \<union> set (linesOf (processedTxt ?W)))"
  proof (cases "matchFound ?W")
    case True
    then show ?thesis unfolding assms(4) by (simp add: loop_stays)
  next
    case False
    obtain v w' where b: "body srv t c ?W = (v, w')" by force
    with False have W': "?W' = w'" by (simp add: loop_snoc)
    have 1: "\<exists>R. requests w' = requests ?W @ c # R \<and> set R \<subseteq> {c}"
    proof (cases "v = Match")
      case True
      with b body_Match(7) [of srv t c ?W w'] show ?thesis by auto
    next
      case False
      from body_not_Match(6) [OF b False] show ?thesis .
    qed
    have "loop srv t cs w = loop srv t post ?W'"
      unfolding assms(4) by (rule loop_through)
    with loop_requests [of srv t post ?W']
    have 2: "\<exists>R'. requests (loop srv t cs w) = requests ?W' @ R'" by auto
    from loop_no_match_account [OF assms(3) False] obtain Fl Pl where
      l: "linesOf (failedTxt ?W) = linesOf (failedTxt w) @ Fl"
        "linesOf (processedTxt ?W) = linesOf (processedTxt w) @ Pl"
        "mset Fl + mset Pl = mset pre"
      by blast
    have 3: "d \<in> set (linesOf (failedTxt ?W)) \<union> set (linesOf (processedTxt ?W))"
      if "d \<in> set pre" for d
    proof -
      from that have "d \<in># mset pre" by simp
      with l(3) have "d \<in># mset Fl + mset Pl" by simp
      then have "d \<in> set Fl \<or> d \<in> set Pl" by auto
      with l(1,2) show ?thesis by auto
    qed
    from 1 2 3 W' False show ?thesis by auto
  qed
qed

text \<open>A report that lists \<open>x\<close> twice, against a service that never answers for \<open>x\<close>: when
  the turn of the second \<open>x\<close> comes, \<open>x\<close> is on the \<open>failed\<close> log, and it is submitted again.\<close>

theorem repeated_fingerprint_resubmitted_witness:
  "''x'' \<notin> {''a1''}
   \<and> parseChecksumFile (Some [''a,x'', ''b,x'', ''c,a1'']) {''a1''} = Inr [''x'', ''x'']
   \<and> count_list [''x'', ''x''] ''x'' = 2
   \<and> \<not> matchFound idle \<and> \<not> matchFound (loop scenarioA 2 [''x''] idle)
   \<and> ''x'' \<in> set (linesOf (failedTxt (loop scenarioA 2 [''x''] idle)))
   \<and> requests (loop scenarioA 2 [''x''] idle) = [''x'']
   \<and> requests (loop scenarioA 2 [''x'', ''x''] idle) = [''x'', ''x'']"
proof -
  have h1: "''x'' \<notin> {''a1''}" by simp
  have h2: "parseChecksumFile (Some [''a,x'', ''b,x'', ''c,a1'']) {''a1''} = Inr [''x'', ''x'']"
    by (simp add: run_defs)
  have h3: "\<not> matchFound idle" by (simp add: run_defs)
  have h4: "[''x'', ''x''] = [''x''] @ ''x'' # []" by simp
  have n: "\<not> matchFound (loop scenarioA 2 [''x''] idle)" by (simp add: run_defs)
  note t = repeated_fingerprint_resubmitted [OF h1 h2 h3 h4, of scenarioA 2]
  from t have "count_list [''x'', ''x''] ''x''
      = length (filter (\<lambda>line. onLine {} line [] = [''x'']) [''a,x'', ''b,x'', ''c,a1''])"
    by blast
  then have c: "count_list [''x'', ''x''] ''x'' = 2"
    by (simp add: run_defs)
  from t n have "\<forall>d\<in>set [''x'']. d \<in> set (linesOf (failedTxt (loop scenarioA 2 [''x''] idle)))
      \<union> set (linesOf (processedTxt (loop scenarioA 2 [''x''] idle)))"
    by presburger
  moreover have "''x'' \<notin> set (linesOf (processedTxt (loop scenarioA 2 [''x''] idle)))"
    by (simp add: run_defs)
  ultimately have l: "''x'' \<in> set (linesOf (failedTxt (loop scenarioA 2 [''x''] idle)))"
    by simp
  have r1: "requests (loop scenarioA 2 [''x''] idle) = [''x'']" by (simp add: run_defs)
  have r2: "requests (loop scenarioA 2 [''x'', ''x''] idle) = [''x'', ''x'']"
    by (simp add: run_defs)
  from h1 h2 c h3 n l r1 r2 show ?thesis by blast
qed

section \<open>Exactly one place\<close>



lemma trim_idem: "trim (trim s) = trim s"
proof -
  define u where "u = dropWhile isWhiteSpace s"
  define t where "t = rev (dropWhile isWhiteSpace (rev u))"
  have tt: "trim s = t" by (simp add: trim_def t_def u_def)
  have u: "u = t @ rev (takeWhile isWhiteSpace (rev u))"
    unfolding t_def by (metis rev_append rev_rev_ident takeWhile_dropWhile_id)
  have d: "dropWhile isWhiteSpace t = t"
  proof (cases t)
    case Nil
    then show ?thesis by simp
  next
    case (Cons a t')
    with u have "hd u = a" and "u \<noteq> []" by (metis append_Cons list.sel(1), auto)
    with hd_dropWhile [of isWhiteSpace s] have "\<not> isWhiteSpace a" by (auto simp: u_def)
    with Cons show ?thesis by simp
  qed
  have "dropWhile isWhiteSpace (rev t) = rev t" by (simp add: t_def)
  with d have "trim t = t" by (simp add: trim_def)
  with tt show ?thesis by simp
qed

lemma onLine_trimmed: "\<forall>c\<in>set acc. trim c = c \<Longrightarrow> \<forall>c\<in>set (onLine ex line acc). trim c = c"
  by (auto simp: onLine_def Let_def trim_idem)

lemma fold_onLine_trimmed:
  "\<forall>c\<in>set acc. trim c = c \<Longrightarrow> \<forall>c\<in>set (fold (onLine ex) lines acc). trim c = c"
proof (induction lines arbitrary: acc)
  case Nil
  then show ?case by simp
next
  case (Cons l lines)
  from Cons.IH [OF onLine_trimmed [OF Cons.prems]] show ?case by simp
qed

text \<open>The candidates that \<^verbatim>\<open>main\<close> hands to the loop are trimmed, and none of them is a line of
  either checkpoint log.\<close>

lemma candidates_absent_from_logs:
  assumes "parseChecksumFile (reportTxt w)
             (readExistingChecksums (processedTxt w) \<union> readExistingChecksums (failedTxt w)) = Inr cs"
    and "c \<in> set cs"
  shows "c \<notin> set (linesOf (failedTxt w)) \<and> c \<notin> set (linesOf (processedTxt w))"
proof -
  from assms have n: "c \<notin> readExistingChecksums (processedTxt w)"
    "c \<notin> readExistingChecksums (failedTxt w)"
    using parseChecksumFile_not_existing by blast+
  from assms fold_onLine_trimmed [of "[]"] have t: "trim c = c"
    by (auto simp: parseChecksumFile_def split: option.splits)
  have "c \<in> set (linesOf f) \<Longrightarrow> c \<in> readExistingChecksums f" for f
    using t by (cases f) (force simp: linesOf_def readExistingChecksums_Some image_iff)+
  with n show ?thesis by blast
qed











end
